theory Spec2Isabelle
  imports Main "HOL-Library.Word"
begin

section \<open>JavaScript strings\<close>

text \<open>
  A JavaScript string is a sequence of UTF-16 code units; \<open>length\<close>, \<open>slice\<close> and the
  selection offsets of a textarea all count code units. A string is therefore a list of
  16-bit words. \<open>lit\<close> turns an ASCII literal into such a string.
\<close>

type_synonym unit16 = "16 word"
type_synonym jstring = "unit16 list"

definition lit :: "string \<Rightarrow> jstring" where
  "lit s = map (\<lambda>c. of_char c) s"

definition LF :: unit16 where
  "LF = 0x0A"

definition CR :: unit16 where
  "CR = 0x0D"

definition HASH :: unit16 where
  "HASH = 0x23"

definition BACKTICK :: unit16 where
  "BACKTICK = 0x60"

text \<open>
  \<open>str.slice(a, b)\<close> and \<open>str.slice(a)\<close> for offsets that are natural numbers: both
  offsets are clamped to the length, and an end before the start gives the empty string.
  \<open>take\<close> and \<open>drop\<close> clamp in the same way and \<open>b - a\<close> is \<open>0\<close> when \<open>b < a\<close>.
\<close>

definition slice2 :: "jstring \<Rightarrow> nat \<Rightarrow> nat \<Rightarrow> jstring" where
  "slice2 str a b = take (b - a) (drop a str)"

definition slice1 :: "jstring \<Rightarrow> nat \<Rightarrow> jstring" where
  "slice1 str a = drop a str"

definition startsWith :: "jstring \<Rightarrow> jstring \<Rightarrow> bool" where
  "startsWith str t \<longleftrightarrow> take (length t) str = t"

definition endsWith :: "jstring \<Rightarrow> jstring \<Rightarrow> bool" where
  "endsWith str t \<longleftrightarrow> length t \<le> length str \<and> drop (length str - length t) str = t"

fun includesStr :: "jstring \<Rightarrow> jstring \<Rightarrow> bool" where
  "includesStr [] t = (t = [])"
| "includesStr (c # cs) t = (startsWith (c # cs) t \<or> includesStr cs t)"

definition repeat :: "jstring \<Rightarrow> nat \<Rightarrow> jstring" where
  "repeat str n = concat (replicate n str)"

text \<open>
  The code units that \<open>trim\<close> removes and that \<open>\s\<close> matches in a regular expression
  without the unicode flag: WhiteSpace and LineTerminator of ECMAScript.
\<close>

definition isWhiteSpace :: "unit16 \<Rightarrow> bool" where
  "isWhiteSpace c \<longleftrightarrow>
     c = 0x09 \<or> c = 0x0A \<or> c = 0x0B \<or> c = 0x0C \<or> c = 0x0D \<or> c = 0x20 \<or> c = 0xA0
     \<or> c = 0x1680 \<or> (0x2000 \<le> c \<and> c \<le> 0x200A) \<or> c = 0x2028 \<or> c = 0x2029
     \<or> c = 0x202F \<or> c = 0x205F \<or> c = 0x3000 \<or> c = 0xFEFF"

definition trim :: "jstring \<Rightarrow> jstring" where
  "trim str = rev (dropWhile isWhiteSpace (rev (dropWhile isWhiteSpace str)))"

text \<open>
  \<open>str.split(/\r?\n/)\<close>: the string is scanned from the left; a carriage return directly
  followed by a line feed, or a line feed alone, ends the current piece. A carriage
  return that is not followed by a line feed stays in its piece.
\<close>

fun consFirst :: "unit16 \<Rightarrow> jstring list \<Rightarrow> jstring list" where
  "consFirst c [] = [[c]]"
| "consFirst c (l # ls) = (c # l) # ls"

fun splitLines :: "jstring \<Rightarrow> jstring list" where
  "splitLines [] = [[]]"
| "splitLines [c] = (if c = LF then [[], []] else [[c]])"
| "splitLines (c # d # cs) =
     (if c = CR \<and> d = LF then [] # splitLines cs
      else if c = LF then [] # splitLines (d # cs)
      else consFirst c (splitLines (d # cs)))"

text \<open>\<open>pieces.join(sep)\<close>\<close>

fun join :: "jstring list \<Rightarrow> jstring \<Rightarrow> jstring" where
  "join [] sep = []"
| "join [x] sep = x"
| "join (x # y # ys) sep = x @ sep @ join (y # ys) sep"

text \<open>
  \<open>str.replace(/^#{1,6}\s*/, "")\<close>: without the multiline flag \<open>^\<close> is the start of the
  string; the greedy \<open>#{1,6}\<close> takes up to six leading hashes (at least one, else the
  string is returned as it is) and the greedy \<open>\s*\<close> all white space after them.
\<close>

definition replaceHeadingMarker :: "jstring \<Rightarrow> jstring" where
  "replaceHeadingMarker str =
     (let n = length (takeWhile (\<lambda>c. c = HASH) str)
      in if n = 0 then str else dropWhile isWhiteSpace (drop (min n 6) str))"

section \<open>The transforms\<close>

record TransformArgs =
  doc_text :: jstring
  selectionStart :: nat
  selectionEnd :: nat

record TransformResult =
  new_value :: jstring
  new_selectionStart :: nat
  new_selectionEnd :: nat

definition wrapSelection ::
  "jstring \<Rightarrow> jstring \<Rightarrow> jstring \<Rightarrow> TransformArgs \<Rightarrow> TransformResult" where
  "wrapSelection before after placeholder args =
     (let txt = doc_text args;
          selected = slice2 txt (selectionStart args) (selectionEnd args);
          hasSelection = (length selected > 0);
          content = (if hasSelection then selected else placeholder);
          val = slice2 txt 0 (selectionStart args) @ before @ content @ after
                @ slice1 txt (selectionEnd args);
          start = selectionStart args + length before;
          stop = start + length content
      in \<lparr>new_value = val, new_selectionStart = start, new_selectionEnd = stop\<rparr>)"

definition prefixLine :: "jstring \<Rightarrow> jstring \<Rightarrow> jstring" where
  "prefixLine prefix line = (if length (trim line) \<noteq> 0 then prefix @ line else prefix)"

definition prefixLines :: "jstring \<Rightarrow> jstring \<Rightarrow> TransformArgs \<Rightarrow> TransformResult" where
  "prefixLines prefix placeholder args =
     (let txt = doc_text args;
          before = slice2 txt 0 (selectionStart args);
          after = slice1 txt (selectionEnd args);
          selected = slice2 txt (selectionStart args) (selectionEnd args);
          content = (if length selected > 0 then selected else placeholder);
          lines = splitLines content;
          transformed = join (map (prefixLine prefix) lines) [LF];
          val = before @ transformed @ after;
          stop = selectionStart args + length transformed
      in \<lparr>new_value = val, new_selectionStart = stop, new_selectionEnd = stop\<rparr>)"

definition headingTransform :: "nat \<Rightarrow> TransformArgs \<Rightarrow> TransformResult" where
  "headingTransform level args =
     (let txt = doc_text args;
          before = slice2 txt 0 (selectionStart args);
          after = slice1 txt (selectionEnd args);
          selected = slice2 txt (selectionStart args) (selectionEnd args);
          stripped = trim (replaceHeadingMarker selected);
          content = (if stripped = [] then lit ''Heading'' else stripped);
          prefix = repeat [HASH] level @ lit '' '';
          needsLeading =
            (if selectionStart args = 0 \<or> endsWith before [LF] then [] else [LF, LF]);
          needsTrailing =
            (if selectionEnd args = length txt \<or> startsWith after [LF] then [] else [LF, LF]);
          insertion = needsLeading @ prefix @ content @ needsTrailing;
          val = before @ insertion @ after;
          start = length before + length needsLeading + length prefix;
          stop = start + length content
      in \<lparr>new_value = val, new_selectionStart = start, new_selectionEnd = stop\<rparr>)"

definition codeTransform :: "TransformArgs \<Rightarrow> TransformResult" where
  "codeTransform args =
     (let txt = doc_text args;
          before = slice2 txt 0 (selectionStart args);
          after = slice1 txt (selectionEnd args);
          selected = slice2 txt (selectionStart args) (selectionEnd args);
          content = (if length selected > 0 then selected else lit ''code snippet'');
          isMultiLine = includesStr content [LF]
      in if isMultiLine \<or> length selected = 0 then
           (let prefix = (if endsWith before [LF] then [LF] else [LF, LF]);
                suffix = (if startsWith after [LF] then [LF] else [LF, LF]);
                block = prefix @ lit ''```'' @ [LF] @ content @ [LF] @ lit ''```'' @ suffix;
                val = before @ block @ after;
                start = length before + length prefix + 4;
                stop = start + length content
            in \<lparr>new_value = val, new_selectionStart = start, new_selectionEnd = stop\<rparr>)
         else
           (let inline = [BACKTICK] @ content @ [BACKTICK];
                val = before @ inline @ after;
                start = selectionStart args + 1;
                stop = start + length content
            in \<lparr>new_value = val, new_selectionStart = start, new_selectionEnd = stop\<rparr>))"

definition dividerTransform :: "TransformArgs \<Rightarrow> TransformResult" where
  "dividerTransform args =
     (let txt = doc_text args;
          before = slice2 txt 0 (selectionStart args);
          after = slice1 txt (selectionEnd args);
          prefix = (if endsWith before [LF] then [LF] else [LF, LF]);
          suffix = (if startsWith after [LF] then [LF] else [LF, LF]);
          insertion = prefix @ lit ''---'' @ suffix;
          val = before @ insertion @ after;
          cursor = length before + length insertion
      in \<lparr>new_value = val, new_selectionStart = cursor, new_selectionEnd = cursor\<rparr>)"

section \<open>The registry and its dispatch\<close>

record FormattingAction =
  act_id :: jstring
  act_label :: jstring
  act_hint :: jstring
  act_transform :: "TransformArgs \<Rightarrow> TransformResult"

text \<open>The hints of the keyboard actions hold the code unit U+2318 (place of interest sign).\<close>

definition shortcutHint :: "string \<Rightarrow> string \<Rightarrow> jstring" where
  "shortcutHint what key = lit what @ lit '' ('' @ [0x2318] @ lit ''/Ctrl + '' @ lit key @ lit '')''"

definition formattingActions :: "FormattingAction list" where
  "formattingActions =
     [\<lparr>act_id = lit ''bold'', act_label = lit ''Bold'',
       act_hint = shortcutHint ''Bold'' ''B'',
       act_transform = wrapSelection (lit ''**'') (lit ''**'') (lit ''bold text'')\<rparr>,
      \<lparr>act_id = lit ''italic'', act_label = lit ''Italic'',
       act_hint = shortcutHint ''Italic'' ''I'',
       act_transform = wrapSelection (lit ''_'') (lit ''_'') (lit ''emphasis'')\<rparr>,
      \<lparr>act_id = lit ''heading'', act_label = lit ''Heading'',
       act_hint = shortcutHint ''Level 2 heading'' ''2'',
       act_transform = headingTransform 2\<rparr>,
      \<lparr>act_id = lit ''quote'', act_label = lit ''Quote'',
       act_hint = lit ''Blockquote'',
       act_transform = prefixLines (lit ''> '') (lit ''Quote text'')\<rparr>,
      \<lparr>act_id = lit ''code'', act_label = lit ''Code'',
       act_hint = shortcutHint ''Inline or fenced code'' ''E'',
       act_transform = codeTransform\<rparr>,
      \<lparr>act_id = lit ''todo'', act_label = lit ''Todo'',
       act_hint = lit ''Checklist item'',
       act_transform = prefixLines (lit ''- [ ] '') (lit ''Task detail'')\<rparr>,
      \<lparr>act_id = lit ''divider'', act_label = lit ''Divider'',
       act_hint = lit ''Horizontal rule'',
       act_transform = dividerTransform\<rparr>]"

text \<open>
  The editor component, as far as the dispatch touches it: the draft, the selection of the
  textarea behind \<open>textareaRef\<close> (\<open>None\<close> while the ref is null) and \<open>nextSelection\<close>,
  the selection to restore after the draft has changed.
\<close>

record Textarea =
  ta_selectionStart :: nat
  ta_selectionEnd :: nat

record Editor =
  draft :: jstring
  textareaRef :: "Textarea option"
  nextSelection :: "(nat \<times> nat) option"

definition applyAction :: "FormattingAction \<Rightarrow> Editor \<Rightarrow> Editor" where
  "applyAction action ed =
     (let fallbackPosition = length (draft ed);
          selStart = (case textareaRef ed of None \<Rightarrow> fallbackPosition
                      | Some ta \<Rightarrow> ta_selectionStart ta);
          selEnd = (case textareaRef ed of None \<Rightarrow> fallbackPosition
                    | Some ta \<Rightarrow> ta_selectionEnd ta);
          result = act_transform action
                     \<lparr>doc_text = draft ed, selectionStart = selStart, selectionEnd = selEnd\<rparr>
      in ed\<lparr>draft := new_value result,
            nextSelection := Some (new_selectionStart result, new_selectionEnd result)\<rparr>)"

definition runAction :: "jstring \<Rightarrow> Editor \<Rightarrow> Editor" where
  "runAction ident ed =
     (case find (\<lambda>item. act_id item = ident) formattingActions of
        Some action \<Rightarrow> applyAction action ed
      | None \<Rightarrow> ed)"

section \<open>Notions of the specification\<close>

text \<open>A request is well formed when its offsets are ordered and lie inside the text.\<close>

definition wellFormed :: "TransformArgs \<Rightarrow> bool" where
  "wellFormed args \<longleftrightarrow>
     selectionStart args \<le> selectionEnd args \<and> selectionEnd args \<le> length (doc_text args)"

text \<open>
  The blank-line separators as the specification words them for the heading transform:
  no leading separator at the start of the document or right after a line feed, no trailing
  separator at the end of the document or right before a line feed, two line feeds otherwise.
\<close>

definition specLeadingSeparator :: "jstring \<Rightarrow> nat \<Rightarrow> jstring" where
  "specLeadingSeparator txt s = (if s = 0 \<or> txt ! (s - 1) = LF then [] else [LF, LF])"

definition specTrailingSeparator :: "jstring \<Rightarrow> nat \<Rightarrow> jstring" where
  "specTrailingSeparator txt e = (if e = length txt \<or> txt ! e = LF then [] else [LF, LF])"

text \<open>
  What the editor does between two clicks on the same button: the result of a transform
  becomes the next request (the new draft with the restored selection).
\<close>

definition applyAgain :: "(TransformArgs \<Rightarrow> TransformResult) \<Rightarrow> TransformArgs \<Rightarrow> TransformResult" where
  "applyAgain f args =
     (let r = f args
      in f \<lparr>doc_text = new_value r, selectionStart = new_selectionStart r,
            selectionEnd = new_selectionEnd r\<rparr>)"

text \<open>
  The content a transform works on: the selected text, or the placeholder when nothing is
  selected.
\<close>

definition contentOf :: "jstring \<Rightarrow> TransformArgs \<Rightarrow> jstring" where
  "contentOf placeholder args =
     (if slice2 (doc_text args) (selectionStart args) (selectionEnd args) = [] then placeholder
      else slice2 (doc_text args) (selectionStart args) (selectionEnd args))"

text \<open>
  A line with its prefix as the specification words it: a line with a character that is
  not white space gets the prefix in front, any other line becomes the prefix alone.
\<close>

definition specPrefixedLine :: "jstring \<Rightarrow> jstring \<Rightarrow> jstring" where
  "specPrefixedLine prefix line =
     (if list_ex (\<lambda>c. \<not> isWhiteSpace c) line then prefix @ line else prefix)"

text \<open>
  A text is a fenced block of \<open>content\<close> between \<open>before\<close> and \<open>after\<close> when the
  content stands between two fence lines, set off from both sides by one or two line
  feeds.
\<close>

definition isFencedBlock :: "jstring \<Rightarrow> jstring \<Rightarrow> jstring \<Rightarrow> jstring \<Rightarrow> bool" where
  "isFencedBlock before content after val \<longleftrightarrow>
     list_ex (\<lambda>lead. list_ex (\<lambda>trail.
         val = before @ lead @ lit ''```'' @ [LF] @ content @ [LF] @ lit ''```'' @ trail @ after)
       [[LF], [LF, LF]]) [[LF], [LF, LF]]"

section \<open>Facts about the string operations\<close>

lemma length_lit: "length (lit s) = length s"
  by (simp add: lit_def)

lemma slice2_zero: "slice2 t 0 n = take n t"
  by (simp add: slice2_def)

lemma slice2_length: "e \<le> length t \<Longrightarrow> length (slice2 t s e) = e - s"
  by (simp add: slice2_def)

lemma slice2_in_append:
  "slice2 (xs @ ys @ zs) (length xs) (length xs + length ys) = ys"
  by (simp add: slice2_def)

lemma endsWith_LF_iff:
  assumes "s \<le> length t"
  shows "endsWith (take s t) [LF] \<longleftrightarrow> 0 < s \<and> t ! (s - 1) = LF"
proof (cases s)
  case 0
  then show ?thesis by (simp add: endsWith_def)
next
  case (Suc k)
  with assms have k: "k < length t" by simp
  then have "take (Suc k) t = take k t @ [t ! k]"
    by (simp add: take_Suc_conv_app_nth)
  with Suc k show ?thesis
    by (simp add: endsWith_def min_def)
qed

lemma startsWith_LF_iff:
  "startsWith (drop e t) [LF] \<longleftrightarrow> e < length t \<and> t ! e = LF"
proof (cases "e < length t")
  case True
  then have "drop e t = t ! e # drop (Suc e) t"
    by (simp add: Cons_nth_drop_Suc)
  with True show ?thesis by (simp add: startsWith_def)
next
  case False
  then show ?thesis by (simp add: startsWith_def)
qed

lemma includesStr_unit: "includesStr str [c] \<longleftrightarrow> c \<in> set str"
  by (induction str) (auto simp: startsWith_def)

lemma trim_empty_iff: "trim l = [] \<longleftrightarrow> (\<forall>c\<in>set l. isWhiteSpace c)"
proof
  assume "trim l = []"
  then have "dropWhile isWhiteSpace (rev (dropWhile isWhiteSpace l)) = []"
    by (simp add: trim_def)
  then have "\<forall>c\<in>set (dropWhile isWhiteSpace l). isWhiteSpace c"
    by (simp add: dropWhile_eq_Nil_conv)
  then have "dropWhile isWhiteSpace l = []"
    by (metis dropWhile_eq_Nil_conv dropWhile_idem)
  then show "\<forall>c\<in>set l. isWhiteSpace c"
    by (simp add: dropWhile_eq_Nil_conv)
next
  assume "\<forall>c\<in>set l. isWhiteSpace c"
  then have d: "dropWhile isWhiteSpace l = []" by simp
  show "trim l = []" unfolding trim_def d by simp
qed

lemma consFirst_no_LF:
  "l \<in> set (consFirst c ls) \<Longrightarrow> c \<noteq> LF \<Longrightarrow> \<forall>l\<in>set ls. LF \<notin> set l \<Longrightarrow> LF \<notin> set l"
  by (cases ls) auto

lemma splitLines_no_LF: "\<forall>l\<in>set (splitLines str). LF \<notin> set l"
proof (induction str rule: splitLines.induct)
  case 1
  then show ?case by simp
next
  case (2 c)
  then show ?case by simp
next
  case (3 c d cs)
  then show ?case by (auto dest: consFirst_no_LF)
qed

section \<open>Wrap-selection\<close>

text \<open>
  Claim C2. With an empty selection at a caret \<open>k\<close> inside the text, wrap-selection
  returns the text before the caret, then \<open>before\<close>, the placeholder and \<open>after\<close>,
  then the text from the caret on; the returned selection starts right after \<open>before\<close>,
  is as long as the placeholder, and the result holds the placeholder there.
\<close>

theorem wrapSelection_caret:
  assumes "k \<le> length T"
  shows "wrapSelection before after placeholder
           \<lparr>doc_text = T, selectionStart = k, selectionEnd = k\<rparr>
         = \<lparr>new_value = take k T @ before @ placeholder @ after @ drop k T,
            new_selectionStart = k + length before,
            new_selectionEnd = k + length before + length placeholder\<rparr>
       \<and> slice2 (take k T @ before @ placeholder @ after @ drop k T)
            (k + length before) (k + length before + length placeholder) = placeholder"
  using assms by (simp add: wrapSelection_def slice2_def slice1_def Let_def)

theorem wrapSelection_caret_witness:
  "(1::nat) \<le> length (lit ''ab'')
   \<and> wrapSelection (lit ''**'') (lit ''**'') (lit ''bold text'')
        \<lparr>doc_text = lit ''ab'', selectionStart = 1, selectionEnd = 1\<rparr>
      = \<lparr>new_value = lit ''a**bold text**b'', new_selectionStart = 3, new_selectionEnd = 12\<rparr>"
  using wrapSelection_caret [of 1 "lit ''ab''" "lit ''**''" "lit ''**''" "lit ''bold text''"]
  by (simp add: lit_def)

text \<open>
  Claim C3. With a non-empty selection inside the text, reading the result of
  wrap-selection between the returned selection offsets gives back the selected text.
\<close>

theorem wrapSelection_roundtrip:
  assumes "s < e" and "e \<le> length T"
  shows "slice2 (new_value (wrapSelection before after placeholder
                   \<lparr>doc_text = T, selectionStart = s, selectionEnd = e\<rparr>))
           (new_selectionStart (wrapSelection before after placeholder
                   \<lparr>doc_text = T, selectionStart = s, selectionEnd = e\<rparr>))
           (new_selectionEnd (wrapSelection before after placeholder
                   \<lparr>doc_text = T, selectionStart = s, selectionEnd = e\<rparr>))
         = slice2 T s e"
  using assms by (simp add: wrapSelection_def slice2_def slice1_def Let_def)

theorem wrapSelection_roundtrip_witness:
  "(1::nat) < 3 \<and> (3::nat) \<le> length (lit ''abcd'')
   \<and> slice2 (new_value (wrapSelection (lit ''_'') (lit ''_'') (lit ''emphasis'')
                   \<lparr>doc_text = lit ''abcd'', selectionStart = 1, selectionEnd = 3\<rparr>))
           (new_selectionStart (wrapSelection (lit ''_'') (lit ''_'') (lit ''emphasis'')
                   \<lparr>doc_text = lit ''abcd'', selectionStart = 1, selectionEnd = 3\<rparr>))
           (new_selectionEnd (wrapSelection (lit ''_'') (lit ''_'') (lit ''emphasis'')
                   \<lparr>doc_text = lit ''abcd'', selectionStart = 1, selectionEnd = 3\<rparr>))
      = lit ''bc''"
  using wrapSelection_roundtrip [of 1 3 "lit ''abcd''" "lit ''_''" "lit ''_''" "lit ''emphasis''"]
  by (simp add: lit_def slice2_def)

lemma repeat_twice: "repeat str 2 = str @ str"
  by (simp add: repeat_def numeral_2_eq_2)

lemma wrapSelection_content:
  assumes "slice2 V st en = c" and "c = [] \<Longrightarrow> placeholder = []"
  shows "wrapSelection before after placeholder
           \<lparr>doc_text = V, selectionStart = st, selectionEnd = en\<rparr>
         = \<lparr>new_value = take st V @ before @ c @ after @ drop en V,
            new_selectionStart = st + length before,
            new_selectionEnd = st + length before + length c\<rparr>"
  using assms by (auto simp: wrapSelection_def Let_def slice2_zero slice1_def)

lemma wrapSelection_twice:
  assumes "wellFormed args"
  shows "applyAgain (wrapSelection before after placeholder) args
   = \<lparr>new_value = take (selectionStart args) (doc_text args) @ before @ before
                    @ contentOf placeholder args
                    @ after @ after @ drop (selectionEnd args) (doc_text args),
      new_selectionStart = selectionStart args + length before + length before,
      new_selectionEnd = selectionStart args + length before + length before
                         + length (contentOf placeholder args)\<rparr>"
proof -
  let ?s = "selectionStart args" and ?e = "selectionEnd args" and ?T = "doc_text args"
  let ?c = "contentOf placeholder args"
  from assms have wf: "?s \<le> ?e" "?e \<le> length ?T"
    by (simp_all add: wellFormed_def)
  have first: "wrapSelection before after placeholder args
    = \<lparr>new_value = take ?s ?T @ before @ ?c @ after @ drop ?e ?T,
       new_selectionStart = ?s + length before,
       new_selectionEnd = ?s + length before + length ?c\<rparr>"
    by (simp add: wrapSelection_def contentOf_def slice2_zero slice1_def Let_def)
  have len: "length (take ?s ?T @ before) = ?s + length before"
    using wf by simp
  have sel: "slice2 (take ?s ?T @ before @ ?c @ after @ drop ?e ?T)
               (?s + length before) (?s + length before + length ?c) = ?c"
    using slice2_in_append [of "take ?s ?T @ before" ?c "after @ drop ?e ?T"] len
    by simp
  have again: "?c = [] \<Longrightarrow> placeholder = []"
    by (simp add: contentOf_def split: if_splits)
  have pre: "take (?s + length before) (take ?s ?T @ before @ ?c @ after @ drop ?e ?T)
             = take ?s ?T @ before"
    using wf by simp
  have post: "drop (?s + length before + length ?c)
                (take ?s ?T @ before @ ?c @ after @ drop ?e ?T) = after @ drop ?e ?T"
    using wf by simp
  show ?thesis
    unfolding applyAgain_def first
    using wrapSelection_content [OF sel again, of before after]
    by (simp add: Let_def pre post del: take_append drop_append)
qed

text \<open>
  Claim C9, as amended. Applying wrap-selection to its own output, with the selection it
  returned, nests the markers: \<open>before\<close> and \<open>after\<close> are inserted again inside the
  existing ones, around the same content, for all marker strings. The second application
  leaves the text as it was exactly when both markers are empty; with a marker that is not
  empty it is not a no-op.
\<close>

theorem wrapSelection_nests:
  assumes "wellFormed args"
  shows "applyAgain (wrapSelection before after placeholder) args
         = \<lparr>new_value = take (selectionStart args) (doc_text args) @ before @ before
                          @ contentOf placeholder args
                          @ after @ after @ drop (selectionEnd args) (doc_text args),
            new_selectionStart = selectionStart args + length before + length before,
            new_selectionEnd = selectionStart args + length before + length before
                               + length (contentOf placeholder args)\<rparr>
         \<and> (new_value (applyAgain (wrapSelection before after placeholder) args)
              = new_value (wrapSelection before after placeholder args)
            \<longleftrightarrow> before = [] \<and> after = [])"
proof -
  have first: "new_value (wrapSelection before after placeholder args)
    = take (selectionStart args) (doc_text args) @ before @ contentOf placeholder args
      @ after @ drop (selectionEnd args) (doc_text args)"
    by (simp add: wrapSelection_def contentOf_def slice2_zero slice1_def Let_def)
  have "length (new_value (applyAgain (wrapSelection before after placeholder) args))
        = length (new_value (wrapSelection before after placeholder args))
          + length before + length after"
    unfolding first wrapSelection_twice [OF assms] by simp
  then have "new_value (applyAgain (wrapSelection before after placeholder) args)
              = new_value (wrapSelection before after placeholder args)
            \<Longrightarrow> before = [] \<and> after = []"
    by auto
  moreover have "before = [] \<and> after = [] \<Longrightarrow>
      new_value (applyAgain (wrapSelection before after placeholder) args)
      = new_value (wrapSelection before after placeholder args)"
    unfolding first wrapSelection_twice [OF assms] by simp
  ultimately show ?thesis
    using wrapSelection_twice [OF assms, of before after placeholder] by blast
qed

theorem wrapSelection_nests_witness:
  "wellFormed \<lparr>doc_text = lit ''abcd'', selectionStart = 1, selectionEnd = 3\<rparr>
   \<and> applyAgain (wrapSelection (lit ''**'') (lit ''**'') (lit ''bold text''))
        \<lparr>doc_text = lit ''abcd'', selectionStart = 1, selectionEnd = 3\<rparr>
      = \<lparr>new_value = lit ''a****bc****d'', new_selectionStart = 5, new_selectionEnd = 7\<rparr>
   \<and> new_value (wrapSelection (lit ''**'') (lit ''**'') (lit ''bold text'')
        \<lparr>doc_text = lit ''abcd'', selectionStart = 1, selectionEnd = 3\<rparr>) = lit ''a**bc**d''"
  using wrapSelection_nests [of "\<lparr>doc_text = lit ''abcd'', selectionStart = 1, selectionEnd = 3\<rparr>"
      "lit ''**''" "lit ''**''" "lit ''bold text''"]
  by (simp add: wellFormed_def contentOf_def wrapSelection_def Let_def lit_def slice2_def
      slice1_def)

text \<open>
  With two empty markers the second application returns its input unchanged, so the
  claim does not hold for every pair of marker strings.
\<close>

theorem wrapSelection_nests_counterexample:
  "applyAgain (wrapSelection [] [] (lit ''bold text''))
     \<lparr>doc_text = lit ''abcd'', selectionStart = 1, selectionEnd = 3\<rparr>
   = wrapSelection [] [] (lit ''bold text'')
       \<lparr>doc_text = lit ''abcd'', selectionStart = 1, selectionEnd = 3\<rparr>"
  by (simp add: applyAgain_def wrapSelection_def Let_def lit_def slice2_def slice1_def)

section \<open>All registered actions\<close>

lemma wrapSelection_valid:
  assumes "wellFormed args"
  shows "new_selectionStart (wrapSelection before after placeholder args)
           \<le> new_selectionEnd (wrapSelection before after placeholder args)
         \<and> new_selectionEnd (wrapSelection before after placeholder args)
           \<le> length (new_value (wrapSelection before after placeholder args))"
  using assms by (auto simp: wrapSelection_def wellFormed_def Let_def slice2_zero slice1_def)

lemma prefixLines_valid:
  assumes "wellFormed args"
  shows "new_selectionStart (prefixLines prefix placeholder args)
           \<le> new_selectionEnd (prefixLines prefix placeholder args)
         \<and> new_selectionEnd (prefixLines prefix placeholder args)
           \<le> length (new_value (prefixLines prefix placeholder args))"
  using assms by (auto simp: prefixLines_def wellFormed_def Let_def slice2_zero slice1_def)

lemma headingTransform_valid:
  assumes "wellFormed args"
  shows "new_selectionStart (headingTransform level args)
           \<le> new_selectionEnd (headingTransform level args)
         \<and> new_selectionEnd (headingTransform level args)
           \<le> length (new_value (headingTransform level args))"
  using assms by (auto simp: headingTransform_def wellFormed_def Let_def slice2_zero slice1_def)

lemma codeTransform_valid:
  assumes "wellFormed args"
  shows "new_selectionStart (codeTransform args) \<le> new_selectionEnd (codeTransform args)
         \<and> new_selectionEnd (codeTransform args) \<le> length (new_value (codeTransform args))"
  using assms
  by (auto simp: codeTransform_def wellFormed_def Let_def slice2_zero slice1_def length_lit)

lemma dividerTransform_valid:
  assumes "wellFormed args"
  shows "new_selectionStart (dividerTransform args) \<le> new_selectionEnd (dividerTransform args)
         \<and> new_selectionEnd (dividerTransform args)
           \<le> length (new_value (dividerTransform args))"
  using assms
  by (auto simp: dividerTransform_def wellFormed_def Let_def slice2_zero slice1_def length_lit)

lemma registry_cases:
  assumes "a \<in> set formattingActions"
  obtains "act_transform a = wrapSelection (lit ''**'') (lit ''**'') (lit ''bold text'')"
  | "act_transform a = wrapSelection (lit ''_'') (lit ''_'') (lit ''emphasis'')"
  | "act_transform a = headingTransform 2"
  | "act_transform a = prefixLines (lit ''> '') (lit ''Quote text'')"
  | "act_transform a = codeTransform"
  | "act_transform a = prefixLines (lit ''- [ ] '') (lit ''Task detail'')"
  | "act_transform a = dividerTransform"
  using assms unfolding formattingActions_def by auto

text \<open>
  Claim C6. For every action of the registry and every well-formed request, the returned
  selection offsets are ordered and lie inside the returned text.
\<close>

theorem registry_selection_valid:
  assumes "a \<in> set formattingActions" and "wellFormed args"
  shows "new_selectionStart (act_transform a args) \<le> new_selectionEnd (act_transform a args)
         \<and> new_selectionEnd (act_transform a args) \<le> length (new_value (act_transform a args))"
  using assms(1)
proof (cases rule: registry_cases)
  case 1
  then show ?thesis using wrapSelection_valid [OF assms(2)] by simp
next
  case 2
  then show ?thesis using wrapSelection_valid [OF assms(2)] by simp
next
  case 3
  then show ?thesis using headingTransform_valid [OF assms(2)] by simp
next
  case 4
  then show ?thesis using prefixLines_valid [OF assms(2)] by simp
next
  case 5
  then show ?thesis using codeTransform_valid [OF assms(2)] by simp
next
  case 6
  then show ?thesis using prefixLines_valid [OF assms(2)] by simp
next
  case 7
  then show ?thesis using dividerTransform_valid [OF assms(2)] by simp
qed

theorem registry_selection_valid_witness:
  "formattingActions ! 2 \<in> set formattingActions
   \<and> wellFormed \<lparr>doc_text = lit ''ab'', selectionStart = 2, selectionEnd = 2\<rparr>
   \<and> act_transform (formattingActions ! 2)
         \<lparr>doc_text = lit ''ab'', selectionStart = 2, selectionEnd = 2\<rparr>
       = \<lparr>new_value = lit ''ab'' @ [LF, LF] @ lit ''## Heading'',
          new_selectionStart = 7, new_selectionEnd = 14\<rparr>
   \<and> (7::nat) \<le> 14 \<and> (14::nat) \<le> length (lit ''ab'' @ [LF, LF] @ lit ''## Heading'')"
  using registry_selection_valid [of "formattingActions ! 2"
      "\<lparr>doc_text = lit ''ab'', selectionStart = 2, selectionEnd = 2\<rparr>"]
  by (simp add: formattingActions_def wellFormed_def headingTransform_def Let_def lit_def
      slice2_def slice1_def endsWith_def startsWith_def trim_def replaceHeadingMarker_def
      repeat_twice HASH_def LF_def isWhiteSpace_def)

lemma wrapSelection_frame:
  "\<exists>mid. new_value (wrapSelection before after placeholder args)
     = take (selectionStart args) (doc_text args) @ mid @ drop (selectionEnd args) (doc_text args)"
  by (simp add: wrapSelection_def Let_def slice2_zero slice1_def)

lemma prefixLines_frame:
  "\<exists>mid. new_value (prefixLines prefix placeholder args)
     = take (selectionStart args) (doc_text args) @ mid @ drop (selectionEnd args) (doc_text args)"
  by (simp add: prefixLines_def Let_def slice2_zero slice1_def)

lemma headingTransform_frame:
  "\<exists>mid. new_value (headingTransform level args)
     = take (selectionStart args) (doc_text args) @ mid @ drop (selectionEnd args) (doc_text args)"
  by (simp add: headingTransform_def Let_def slice2_zero slice1_def)

lemma codeTransform_frame:
  "\<exists>mid. new_value (codeTransform args)
     = take (selectionStart args) (doc_text args) @ mid @ drop (selectionEnd args) (doc_text args)"
  by (simp add: codeTransform_def Let_def slice2_zero slice1_def)

lemma dividerTransform_frame:
  "\<exists>mid. new_value (dividerTransform args)
     = take (selectionStart args) (doc_text args) @ mid @ drop (selectionEnd args) (doc_text args)"
  by (simp add: dividerTransform_def Let_def slice2_zero slice1_def)

text \<open>
  Claim C7. For every action of the registry and every well-formed request, the returned
  text is the text before the selection, then some replacement, then the text after the
  selection: what lies outside the selection is kept as it is and in order.
\<close>

theorem registry_frame:
  assumes "a \<in> set formattingActions" and "wellFormed args"
  shows "\<exists>mid. new_value (act_transform a args)
           = take (selectionStart args) (doc_text args) @ mid
             @ drop (selectionEnd args) (doc_text args)"
  using assms(1)
proof (cases rule: registry_cases)
  case 1
  then show ?thesis using wrapSelection_frame by simp
next
  case 2
  then show ?thesis using wrapSelection_frame by simp
next
  case 3
  then show ?thesis using headingTransform_frame by simp
next
  case 4
  then show ?thesis using prefixLines_frame by simp
next
  case 5
  then show ?thesis using codeTransform_frame by simp
next
  case 6
  then show ?thesis using prefixLines_frame by simp
next
  case 7
  then show ?thesis using dividerTransform_frame by simp
qed

theorem registry_frame_witness:
  "formattingActions ! 3 \<in> set formattingActions
   \<and> wellFormed \<lparr>doc_text = lit ''xaby'', selectionStart = 1, selectionEnd = 3\<rparr>
   \<and> new_value (act_transform (formattingActions ! 3)
         \<lparr>doc_text = lit ''xaby'', selectionStart = 1, selectionEnd = 3\<rparr>)
       = lit ''x'' @ lit ''> ab'' @ lit ''y''
   \<and> (\<exists>mid. new_value (act_transform (formattingActions ! 3)
         \<lparr>doc_text = lit ''xaby'', selectionStart = 1, selectionEnd = 3\<rparr>)
       = take 1 (lit ''xaby'') @ mid @ drop 3 (lit ''xaby''))"
  using registry_frame [of "formattingActions ! 3"
      "\<lparr>doc_text = lit ''xaby'', selectionStart = 1, selectionEnd = 3\<rparr>"]
  by (simp add: formattingActions_def wellFormed_def prefixLines_def prefixLine_def Let_def
      lit_def slice2_def slice1_def trim_def LF_def CR_def isWhiteSpace_def)

section \<open>Dispatch\<close>

lemma registry_ids:
  "map act_id formattingActions
   = [lit ''bold'', lit ''italic'', lit ''heading'', lit ''quote'', lit ''code'', lit ''todo'',
      lit ''divider'']"
  by (simp add: formattingActions_def)

text \<open>
  Claim C8. For an id that is none of bold, italic, heading, quote, code, todo and divider
  the lookup in the registry finds no action and running the action leaves the editor
  (draft, selection and pending selection) as it was.
\<close>

theorem runAction_unregistered:
  assumes "ident \<notin> {lit ''bold'', lit ''italic'', lit ''heading'', lit ''quote'', lit ''code'',
                      lit ''todo'', lit ''divider''}"
  shows "find (\<lambda>item. act_id item = ident) formattingActions = None
         \<and> runAction ident ed = ed"
proof -
  from assms have "ident \<notin> set (map act_id formattingActions)"
    by (simp add: registry_ids)
  then have "find (\<lambda>item. act_id item = ident) formattingActions = None"
    by (auto simp: find_None_iff)
  then show ?thesis by (simp add: runAction_def)
qed

theorem runAction_unregistered_witness:
  "lit ''underline'' \<notin> {lit ''bold'', lit ''italic'', lit ''heading'', lit ''quote'',
                          lit ''code'', lit ''todo'', lit ''divider''}
   \<and> runAction (lit ''underline'')
        \<lparr>draft = lit ''note'', textareaRef = Some \<lparr>ta_selectionStart = 0, ta_selectionEnd = 4\<rparr>,
         nextSelection = None\<rparr>
      = \<lparr>draft = lit ''note'', textareaRef = Some \<lparr>ta_selectionStart = 0, ta_selectionEnd = 4\<rparr>,
         nextSelection = None\<rparr>"
  using runAction_unregistered [of "lit ''underline''"
      "\<lparr>draft = lit ''note'', textareaRef = Some \<lparr>ta_selectionStart = 0, ta_selectionEnd = 4\<rparr>,
        nextSelection = None\<rparr>"]
  by (simp add: lit_def)

lemma runAction_registered_example:
  "runAction (lit ''bold'')
        \<lparr>draft = lit ''note'', textareaRef = Some \<lparr>ta_selectionStart = 0, ta_selectionEnd = 4\<rparr>,
         nextSelection = None\<rparr>
      = \<lparr>draft = lit ''**note**'', textareaRef = Some \<lparr>ta_selectionStart = 0, ta_selectionEnd = 4\<rparr>,
         nextSelection = Some (2, 6)\<rparr>"
  by (simp add: runAction_def formattingActions_def applyAction_def wrapSelection_def Let_def
      lit_def slice2_def slice1_def)

section \<open>Prefix-lines\<close>

lemma prefixLine_spec: "prefixLine prefix line = specPrefixedLine prefix line"
  by (auto simp: prefixLine_def specPrefixedLine_def trim_empty_iff list_ex_iff)

lemma splitLines_member_no_LF: "splitLines str = ls \<Longrightarrow> l \<in> set ls \<Longrightarrow> LF \<notin> set l"
  using splitLines_no_LF by blast

text \<open>
  Claim C4. When the selected text splits into exactly three lines (at line feeds, each
  with an optional carriage return before it), the quote transform replaces the selection
  by three lines joined by single line feeds: each line of the selection with a character
  that is not white space keeps its text behind the prefix, every other line becomes the
  prefix alone. Each output line starts with the prefix and holds no line feed.
\<close>

theorem prefixLines_three_lines:
  assumes "s < e" and "e \<le> length T"
    and "splitLines (slice2 T s e) = [l1, l2, l3]"
  shows "prefixLines (lit ''> '') placeholder
           \<lparr>doc_text = T, selectionStart = s, selectionEnd = e\<rparr>
         = \<lparr>new_value = take s T
              @ specPrefixedLine (lit ''> '') l1 @ [LF]
              @ specPrefixedLine (lit ''> '') l2 @ [LF]
              @ specPrefixedLine (lit ''> '') l3
              @ drop e T,
            new_selectionStart = s + length (specPrefixedLine (lit ''> '') l1 @ [LF]
              @ specPrefixedLine (lit ''> '') l2 @ [LF] @ specPrefixedLine (lit ''> '') l3),
            new_selectionEnd = s + length (specPrefixedLine (lit ''> '') l1 @ [LF]
              @ specPrefixedLine (lit ''> '') l2 @ [LF] @ specPrefixedLine (lit ''> '') l3)\<rparr>
         \<and> list_all (\<lambda>l. take 2 (specPrefixedLine (lit ''> '') l) = lit ''> ''
                          \<and> LF \<notin> set (specPrefixedLine (lit ''> '') l)) [l1, l2, l3]"
proof -
  from assms(1,2) have sel: "slice2 T s e \<noteq> []"
    by (simp add: slice2_def)
  have noLF: "LF \<notin> set l1" "LF \<notin> set l2" "LF \<notin> set l3"
    using splitLines_member_no_LF [OF assms(3)] by simp_all
  have pre: "LF \<notin> set (lit ''> '')"
    by (simp add: lit_def LF_def)
  have lines: "list_all (\<lambda>l. take 2 (specPrefixedLine (lit ''> '') l) = lit ''> ''
                          \<and> LF \<notin> set (specPrefixedLine (lit ''> '') l)) [l1, l2, l3]"
    using noLF pre by (simp add: specPrefixedLine_def length_lit)
  have "prefixLines (lit ''> '') placeholder
           \<lparr>doc_text = T, selectionStart = s, selectionEnd = e\<rparr>
         = \<lparr>new_value = take s T
              @ specPrefixedLine (lit ''> '') l1 @ [LF]
              @ specPrefixedLine (lit ''> '') l2 @ [LF]
              @ specPrefixedLine (lit ''> '') l3
              @ drop e T,
            new_selectionStart = s + length (specPrefixedLine (lit ''> '') l1 @ [LF]
              @ specPrefixedLine (lit ''> '') l2 @ [LF] @ specPrefixedLine (lit ''> '') l3),
            new_selectionEnd = s + length (specPrefixedLine (lit ''> '') l1 @ [LF]
              @ specPrefixedLine (lit ''> '') l2 @ [LF] @ specPrefixedLine (lit ''> '') l3)\<rparr>"
    using sel assms(3)
    by (simp add: prefixLines_def Let_def slice2_zero slice1_def prefixLine_spec)
  with lines show ?thesis by simp
qed

theorem prefixLines_three_lines_witness:
  "(0::nat) < 6 \<and> (6::nat) \<le> length (lit ''a'' @ [CR, LF] @ lit '' '' @ [LF] @ lit ''b c'')
   \<and> splitLines (slice2 (lit ''a'' @ [CR, LF] @ lit '' '' @ [LF] @ lit ''b c'') 0 6)
       = [lit ''a'', lit '' '', lit ''b'']
   \<and> prefixLines (lit ''> '') (lit ''Quote text'')
        \<lparr>doc_text = lit ''a'' @ [CR, LF] @ lit '' '' @ [LF] @ lit ''b c'',
         selectionStart = 0, selectionEnd = 6\<rparr>
      = \<lparr>new_value = lit ''> a'' @ [LF] @ lit ''> '' @ [LF] @ lit ''> b'' @ lit '' c'',
         new_selectionStart = 10, new_selectionEnd = 10\<rparr>"
  using prefixLines_three_lines [of 0 6 "lit ''a'' @ [CR, LF] @ lit '' '' @ [LF] @ lit ''b c''"
      "lit ''a''" "lit '' ''" "lit ''b''" "lit ''Quote text''"]
  by (simp add: lit_def slice2_def CR_def LF_def specPrefixedLine_def isWhiteSpace_def)

section \<open>The code transform\<close>

lemma slice2_empty_iff: "s \<le> e \<Longrightarrow> e \<le> length T \<Longrightarrow> slice2 T s e = [] \<longleftrightarrow> s = e"
  by (auto simp: slice2_def)

lemma codeTransform_fenced:
  assumes "LF \<in> set (slice2 T s e) \<or> slice2 T s e = []"
  shows "codeTransform \<lparr>doc_text = T, selectionStart = s, selectionEnd = e\<rparr>
         = \<lparr>new_value = take s T
              @ (if endsWith (take s T) [LF] then [LF] else [LF, LF])
              @ lit ''```'' @ [LF]
              @ (if slice2 T s e = [] then lit ''code snippet'' else slice2 T s e)
              @ [LF] @ lit ''```''
              @ (if startsWith (drop e T) [LF] then [LF] else [LF, LF])
              @ drop e T,
            new_selectionStart = length (take s T)
              + length (if endsWith (take s T) [LF] then [LF] else [LF, LF]) + 4,
            new_selectionEnd = length (take s T)
              + length (if endsWith (take s T) [LF] then [LF] else [LF, LF]) + 4
              + length (if slice2 T s e = [] then lit ''code snippet'' else slice2 T s e)\<rparr>"
  using assms
  by (auto simp: codeTransform_def Let_def slice2_zero slice1_def includesStr_unit)

lemma codeTransform_inline:
  assumes "LF \<notin> set (slice2 T s e)" and "slice2 T s e \<noteq> []"
  shows "codeTransform \<lparr>doc_text = T, selectionStart = s, selectionEnd = e\<rparr>
         = \<lparr>new_value = take s T @ [BACKTICK] @ slice2 T s e @ [BACKTICK] @ drop e T,
            new_selectionStart = s + 1,
            new_selectionEnd = s + 1 + length (slice2 T s e)\<rparr>"
  using assms
  by (auto simp: codeTransform_def Let_def slice2_zero slice1_def includesStr_unit)

lemma isFencedBlock_length:
  "isFencedBlock before content after val \<Longrightarrow>
     length before + length content + length after + 10 \<le> length val"
  by (auto simp: isFencedBlock_def length_lit)

text \<open>
  Claim C5. For a well-formed request the code transform returns a fenced block of the
  content exactly when the content holds a line feed or the selection is empty. With an
  empty selection the fenced block holds the placeholder \<open>code snippet\<close>. With a
  selection that is not empty and holds no line feed the result is inline code: the
  selected text between two backticks and nothing else added, and the returned selection
  covers the selected text between the backticks.
\<close>

theorem codeTransform_modes:
  assumes "s \<le> e" and "e \<le> length T"
  shows "(isFencedBlock (take s T)
            (contentOf (lit ''code snippet'') \<lparr>doc_text = T, selectionStart = s, selectionEnd = e\<rparr>)
            (drop e T)
            (new_value (codeTransform \<lparr>doc_text = T, selectionStart = s, selectionEnd = e\<rparr>))
          \<longleftrightarrow> LF \<in> set (contentOf (lit ''code snippet'')
                           \<lparr>doc_text = T, selectionStart = s, selectionEnd = e\<rparr>) \<or> s = e)
       \<and> (s = e \<longrightarrow>
            isFencedBlock (take s T) (lit ''code snippet'') (drop e T)
              (new_value (codeTransform \<lparr>doc_text = T, selectionStart = s, selectionEnd = e\<rparr>)))
       \<and> (s < e \<and> LF \<notin> set (slice2 T s e) \<longrightarrow>
            codeTransform \<lparr>doc_text = T, selectionStart = s, selectionEnd = e\<rparr>
            = \<lparr>new_value = take s T @ [BACKTICK] @ slice2 T s e @ [BACKTICK] @ drop e T,
               new_selectionStart = s + 1,
               new_selectionEnd = s + 1 + length (slice2 T s e)\<rparr>
            \<and> slice2 (take s T @ [BACKTICK] @ slice2 T s e @ [BACKTICK] @ drop e T)
                 (s + 1) (s + 1 + length (slice2 T s e)) = slice2 T s e)"
proof -
  let ?args = "\<lparr>doc_text = T, selectionStart = s, selectionEnd = e\<rparr>"
  let ?sel = "slice2 T s e"
  let ?c = "contentOf (lit ''code snippet'') ?args"
  have empty: "?sel = [] \<longleftrightarrow> s = e"
    using assms by (rule slice2_empty_iff)
  have c: "?c = (if ?sel = [] then lit ''code snippet'' else ?sel)"
    by (simp add: contentOf_def)
  have ph: "LF \<notin> set (lit ''code snippet'')"
    by (simp add: lit_def LF_def)
  have fenced: "isFencedBlock (take s T) ?c (drop e T) (new_value (codeTransform ?args))"
    if "LF \<in> set ?c \<or> s = e"
  proof -
    from that empty c ph have "LF \<in> set ?sel \<or> ?sel = []"
      by (auto split: if_splits)
    from codeTransform_fenced [OF this] show ?thesis
      by (simp add: isFencedBlock_def c)
  qed
  have inline: "codeTransform ?args
            = \<lparr>new_value = take s T @ [BACKTICK] @ ?sel @ [BACKTICK] @ drop e T,
               new_selectionStart = s + 1,
               new_selectionEnd = s + 1 + length ?sel\<rparr>"
    if "s < e" and "LF \<notin> set ?sel"
    using that empty by (intro codeTransform_inline) auto
  have not_fenced: "\<not> isFencedBlock (take s T) ?c (drop e T) (new_value (codeTransform ?args))"
    if "\<not> (LF \<in> set ?c \<or> s = e)"
  proof
    assume f: "isFencedBlock (take s T) ?c (drop e T) (new_value (codeTransform ?args))"
    from that assms have se: "s < e" by simp
    from that empty c have nl: "LF \<notin> set ?sel" by (auto split: if_splits)
    from se empty c have "?c = ?sel" by simp
    with isFencedBlock_length [OF f] inline [OF se nl] show False
      by simp
  qed
  have read: "slice2 (take s T @ [BACKTICK] @ ?sel @ [BACKTICK] @ drop e T)
                 (s + 1) (s + 1 + length ?sel) = ?sel"
    using slice2_in_append [of "take s T @ [BACKTICK]" ?sel "[BACKTICK] @ drop e T"] assms
    by simp
  have placeholder: "isFencedBlock (take s T) (lit ''code snippet'') (drop e T)
              (new_value (codeTransform ?args))" if "s = e"
    using fenced that empty c by simp
  from fenced not_fenced inline read placeholder show ?thesis
    by blast
qed

theorem codeTransform_modes_witness:
  "(2::nat) \<le> 3 \<and> (3::nat) \<le> length (lit ''a x b'')
   \<and> codeTransform \<lparr>doc_text = lit ''a x b'', selectionStart = 2, selectionEnd = 3\<rparr>
       = \<lparr>new_value = lit ''a `x` b'', new_selectionStart = 3, new_selectionEnd = 4\<rparr>
   \<and> \<not> isFencedBlock (lit ''a '') (lit ''x'') (lit '' b'')
         (new_value (codeTransform
            \<lparr>doc_text = lit ''a x b'', selectionStart = 2, selectionEnd = 3\<rparr>))"
  using codeTransform_modes [of 2 3 "lit ''a x b''"]
  by (auto simp: lit_def slice2_def contentOf_def LF_def BACKTICK_def)

lemma codeTransform_caret_example:
  "codeTransform \<lparr>doc_text = lit ''ab'', selectionStart = 1, selectionEnd = 1\<rparr>
   = \<lparr>new_value = lit ''a'' @ [LF, LF] @ lit ''```'' @ [LF] @ lit ''code snippet'' @ [LF]
                    @ lit ''```'' @ [LF, LF] @ lit ''b'',
      new_selectionStart = 7, new_selectionEnd = 19\<rparr>"
  by (simp add: codeTransform_def Let_def lit_def slice2_def slice1_def endsWith_def
      startsWith_def LF_def)

section \<open>Block separators: heading and divider\<close>

lemma needsLeading_spec:
  assumes "s \<le> length T"
  shows "(if s = 0 \<or> endsWith (take s T) [LF] then [] else [LF, LF]) = specLeadingSeparator T s"
  using endsWith_LF_iff [OF assms] by (auto simp: specLeadingSeparator_def)

lemma needsTrailing_spec:
  assumes "e \<le> length T"
  shows "(if e = length T \<or> startsWith (drop e T) [LF] then [] else [LF, LF])
         = specTrailingSeparator T e"
  using assms startsWith_LF_iff [of e T] by (auto simp: specTrailingSeparator_def)

lemma headingTransform_result:
  assumes "s \<le> e" and "e \<le> length T"
  shows "headingTransform level \<lparr>doc_text = T, selectionStart = s, selectionEnd = e\<rparr>
         = \<lparr>new_value = take s T @ specLeadingSeparator T s @ repeat [HASH] level @ lit '' ''
              @ (if trim (replaceHeadingMarker (slice2 T s e)) = [] then lit ''Heading''
                 else trim (replaceHeadingMarker (slice2 T s e)))
              @ specTrailingSeparator T e @ drop e T,
            new_selectionStart = s + length (specLeadingSeparator T s) + (level + 1),
            new_selectionEnd = s + length (specLeadingSeparator T s) + (level + 1)
              + length (if trim (replaceHeadingMarker (slice2 T s e)) = [] then lit ''Heading''
                        else trim (replaceHeadingMarker (slice2 T s e)))\<rparr>"
proof -
  from assms have s: "s \<le> length T" by simp
  have len: "length (repeat [HASH] level @ lit '' '') = level + 1"
    by (simp add: repeat_def length_lit)
  show ?thesis
    unfolding headingTransform_def Let_def
    using needsLeading_spec [OF s] needsTrailing_spec [OF assms(2)] s len
    by (simp add: slice2_zero slice1_def)
qed

text \<open>
  Claim C1, as amended. The divider transform puts \<open>---\<close> between the text before the
  selection and the text after it (the selected text is dropped), with separators that are
  never empty: the leading one is a single line feed when the character right before the
  selection is a line feed and two line feeds otherwise, also at the start of the document;
  the trailing one is a single line feed when the character right after the selection is a
  line feed and two line feeds otherwise, also at the end of the document. The caret lands
  right after the trailing separator.
\<close>

theorem dividerTransform_separators:
  assumes "s \<le> e" and "e \<le> length T"
  shows "dividerTransform \<lparr>doc_text = T, selectionStart = s, selectionEnd = e\<rparr>
         = \<lparr>new_value = take s T
              @ (if 0 < s \<and> T ! (s - 1) = LF then [LF] else [LF, LF])
              @ lit ''---''
              @ (if e < length T \<and> T ! e = LF then [LF] else [LF, LF])
              @ drop e T,
            new_selectionStart = s
              + length (if 0 < s \<and> T ! (s - 1) = LF then [LF] else [LF, LF]) + 3
              + length (if e < length T \<and> T ! e = LF then [LF] else [LF, LF]),
            new_selectionEnd = s
              + length (if 0 < s \<and> T ! (s - 1) = LF then [LF] else [LF, LF]) + 3
              + length (if e < length T \<and> T ! e = LF then [LF] else [LF, LF])\<rparr>"
proof -
  from assms have s: "s \<le> length T" by simp
  show ?thesis
    unfolding dividerTransform_def Let_def
    using endsWith_LF_iff [OF s] startsWith_LF_iff [of e T] s
    by (simp add: slice2_zero slice1_def length_lit)
qed

theorem dividerTransform_separators_witness:
  "(2::nat) \<le> 2 \<and> (2::nat) \<le> length (lit ''A'' @ [LF] @ lit ''B'')
   \<and> dividerTransform
        \<lparr>doc_text = lit ''A'' @ [LF] @ lit ''B'', selectionStart = 2, selectionEnd = 2\<rparr>
      = \<lparr>new_value = lit ''A'' @ [LF] @ [LF] @ lit ''---'' @ [LF, LF] @ lit ''B'',
         new_selectionStart = 8, new_selectionEnd = 8\<rparr>"
  using dividerTransform_separators [of 2 2 "lit ''A'' @ [LF] @ lit ''B''"]
  by (simp add: lit_def LF_def)

text \<open>
  The separators of the heading transform are those of the specification
  (\<open>headingTransform_result\<close>); those of the divider are not. With the caret at the
  start of the second line of a two-line text the character before the caret is a line
  feed, so the leading separator of the specification is empty, and the divider inserts a
  line feed there.
\<close>

theorem dividerTransform_separators_counterexample:
  "new_value (dividerTransform
     \<lparr>doc_text = lit ''A'' @ [LF] @ lit ''B'', selectionStart = 2, selectionEnd = 2\<rparr>)
   = lit ''A'' @ [LF] @ [LF] @ lit ''---'' @ [LF, LF] @ lit ''B''
   \<and> specLeadingSeparator (lit ''A'' @ [LF] @ lit ''B'') 2 = []
   \<and> new_value (dividerTransform
     \<lparr>doc_text = lit ''A'' @ [LF] @ lit ''B'', selectionStart = 2, selectionEnd = 2\<rparr>)
   \<noteq> take 2 (lit ''A'' @ [LF] @ lit ''B'')
     @ specLeadingSeparator (lit ''A'' @ [LF] @ lit ''B'') 2
     @ lit ''---''
     @ specTrailingSeparator (lit ''A'' @ [LF] @ lit ''B'') 2
     @ drop 2 (lit ''A'' @ [LF] @ lit ''B'')"
  by (simp add: dividerTransform_def Let_def lit_def slice2_def slice1_def endsWith_def
      startsWith_def specLeadingSeparator_def specTrailingSeparator_def LF_def)

section \<open>The heading transform on several lines\<close>

lemma trim_decomp:
  "\<exists>w1 w2. xs = w1 @ trim xs @ w2 \<and> list_all isWhiteSpace w1 \<and> list_all isWhiteSpace w2"
proof -
  let ?ys = "dropWhile isWhiteSpace xs"
  have "rev ?ys = takeWhile isWhiteSpace (rev ?ys) @ dropWhile isWhiteSpace (rev ?ys)"
    by simp
  then have "rev (rev ?ys)
             = rev (dropWhile isWhiteSpace (rev ?ys)) @ rev (takeWhile isWhiteSpace (rev ?ys))"
    by (metis rev_append)
  then have ys: "?ys = trim xs @ rev (takeWhile isWhiteSpace (rev ?ys))"
    by (simp add: trim_def)
  have "xs = takeWhile isWhiteSpace xs @ ?ys" by simp
  with ys have "xs = takeWhile isWhiteSpace xs @ trim xs @ rev (takeWhile isWhiteSpace (rev ?ys))"
    by simp
  moreover have "list_all isWhiteSpace (takeWhile isWhiteSpace xs)"
    by (auto simp: list_all_iff dest: set_takeWhileD)
  moreover have "list_all isWhiteSpace (rev (takeWhile isWhiteSpace (rev ?ys)))"
    by (auto simp: list_all_iff dest: set_takeWhileD)
  ultimately show ?thesis by blast
qed

lemma trim_ends:
  assumes "trim xs \<noteq> []"
  shows "\<not> isWhiteSpace (hd (trim xs)) \<and> \<not> isWhiteSpace (last (trim xs))"
proof -
  let ?ys = "dropWhile isWhiteSpace xs"
  let ?zs = "dropWhile isWhiteSpace (rev ?ys)"
  from assms have zs: "?zs \<noteq> []" by (simp add: trim_def)
  then have "\<not> isWhiteSpace (hd ?zs)" by (rule hd_dropWhile)
  with zs have l: "\<not> isWhiteSpace (last (trim xs))"
    by (simp add: trim_def last_rev)
  have ys: "?ys \<noteq> []"
  proof
    assume "?ys = []"
    then have "?zs = []" by (simp only: rev.simps dropWhile.simps)
    with zs show False by contradiction
  qed
  then have h: "\<not> isWhiteSpace (hd ?ys)" by (rule hd_dropWhile)
  have "rev ?ys = takeWhile isWhiteSpace (rev ?ys) @ ?zs" by simp
  then have "rev (rev ?ys) = rev ?zs @ rev (takeWhile isWhiteSpace (rev ?ys))"
    by (metis rev_append)
  then have "?ys = trim xs @ rev (takeWhile isWhiteSpace (rev ?ys))"
    by (simp add: trim_def)
  with assms have "hd ?ys = hd (trim xs)"
    by (metis hd_append2)
  with h l show ?thesis by simp
qed

lemma replaceHeadingMarker_decomp:
  "\<exists>m w. str = m @ w @ replaceHeadingMarker str \<and> set m \<subseteq> {HASH} \<and> length m \<le> 6
         \<and> list_all isWhiteSpace w"
proof (cases "takeWhile (\<lambda>c. c = HASH) str = []")
  case True
  then have "replaceHeadingMarker str = str"
    by (simp add: replaceHeadingMarker_def)
  then have "str = [] @ [] @ replaceHeadingMarker str \<and> set [] \<subseteq> {HASH}
             \<and> length ([] :: jstring) \<le> 6 \<and> list_all isWhiteSpace []"
    by simp
  then show ?thesis by blast
next
  case False
  let ?n = "min (length (takeWhile (\<lambda>c. c = HASH) str)) 6"
  let ?m = "take ?n str" and ?r = "drop ?n str"
  from False have r: "replaceHeadingMarker str = dropWhile isWhiteSpace ?r"
    by (simp add: replaceHeadingMarker_def Let_def)
  have "?m = take ?n (takeWhile (\<lambda>c. c = HASH) str @ dropWhile (\<lambda>c. c = HASH) str)"
    by simp
  also have "\<dots> = take ?n (takeWhile (\<lambda>c. c = HASH) str)"
    by (simp del: takeWhile_dropWhile_id)
  finally have "?m = take ?n (takeWhile (\<lambda>c. c = HASH) str)" .
  then have "set ?m \<subseteq> set (takeWhile (\<lambda>c. c = HASH) str)"
    by (metis set_take_subset)
  then have m: "set ?m \<subseteq> {HASH}"
    by (auto dest: set_takeWhileD)
  have "str = ?m @ takeWhile isWhiteSpace ?r @ dropWhile isWhiteSpace ?r"
    by simp
  moreover have "list_all isWhiteSpace (takeWhile isWhiteSpace ?r)"
    by (auto simp: list_all_iff dest: set_takeWhileD)
  moreover have "length ?m \<le> 6" by simp
  ultimately show ?thesis using m r by (intro exI [of _ ?m] exI [of _ "takeWhile isWhiteSpace ?r"]) simp
qed

text \<open>
  Claim C10. For a well-formed request the selected text is a run of at most six hashes,
  then white space, then the content \<open>c\<close>, then white space, where \<open>c\<close> neither
  starts nor ends with white space; nothing inside \<open>c\<close> is removed, so line feeds
  between its lines stay. The level-2 heading transform puts the marker \<open>## \<close> once,
  in front of \<open>c\<close> (in front of \<open>Heading\<close> when \<open>c\<close> is empty): the first line of
  \<open>c\<close> is the heading line and the lines after it follow without a marker. The
  returned selection covers the content.
\<close>

theorem headingTransform_multiline:
  assumes "s \<le> e" and "e \<le> length T"
  shows "\<exists>m w1 c w2.
           slice2 T s e = m @ w1 @ c @ w2
         \<and> list_all (\<lambda>x. x = HASH) m \<and> length m \<le> 6
         \<and> list_all isWhiteSpace w1 \<and> list_all isWhiteSpace w2
         \<and> (c = [] \<or> \<not> isWhiteSpace (hd c) \<and> \<not> isWhiteSpace (last c))
         \<and> headingTransform 2 \<lparr>doc_text = T, selectionStart = s, selectionEnd = e\<rparr>
           = \<lparr>new_value = take s T @ specLeadingSeparator T s @ lit ''## ''
                @ (if c = [] then lit ''Heading'' else c)
                @ specTrailingSeparator T e @ drop e T,
              new_selectionStart = s + length (specLeadingSeparator T s) + 3,
              new_selectionEnd = s + length (specLeadingSeparator T s) + 3
                + length (if c = [] then lit ''Heading'' else c)\<rparr>"
proof -
  let ?sel = "slice2 T s e"
  let ?c = "trim (replaceHeadingMarker ?sel)"
  obtain m w where mw: "?sel = m @ w @ replaceHeadingMarker ?sel"
      "set m \<subseteq> {HASH}" "length m \<le> 6" "list_all isWhiteSpace w"
    using replaceHeadingMarker_decomp [of ?sel] by blast
  obtain w1 w2 where ws: "replaceHeadingMarker ?sel = w1 @ ?c @ w2"
      "list_all isWhiteSpace w1" "list_all isWhiteSpace w2"
    using trim_decomp [of "replaceHeadingMarker ?sel"] by blast
  from mw(1) ws(1) have split: "?sel = m @ (w @ w1) @ ?c @ w2"
    by simp
  from mw(2) have hashes: "list_all (\<lambda>x. x = HASH) m"
    by (auto simp: list_all_iff)
  from mw(4) ws(2) have lead: "list_all isWhiteSpace (w @ w1)"
    by simp
  have ends: "?c = [] \<or> \<not> isWhiteSpace (hd ?c) \<and> \<not> isWhiteSpace (last ?c)"
    using trim_ends [of "replaceHeadingMarker ?sel"] by blast
  have marker: "repeat [HASH] 2 @ lit '' '' = lit ''## ''"
    by (simp add: repeat_twice lit_def HASH_def)
  have result: "headingTransform 2 \<lparr>doc_text = T, selectionStart = s, selectionEnd = e\<rparr>
           = \<lparr>new_value = take s T @ specLeadingSeparator T s @ lit ''## ''
                @ (if ?c = [] then lit ''Heading'' else ?c)
                @ specTrailingSeparator T e @ drop e T,
              new_selectionStart = s + length (specLeadingSeparator T s) + 3,
              new_selectionEnd = s + length (specLeadingSeparator T s) + 3
                + length (if ?c = [] then lit ''Heading'' else ?c)\<rparr>"
    using headingTransform_result [OF assms, of 2] marker
    by (simp del: append_assoc add: append_assoc [symmetric])
  from split hashes mw(3) lead ws(3) ends result show ?thesis
    by blast
qed

theorem headingTransform_multiline_witness:
  "(2::nat) \<le> 7
   \<and> (7::nat) \<le> length (lit ''t'' @ [LF] @ lit ''# a'' @ [LF] @ lit ''b'' @ [LF] @ lit ''u'')
   \<and> slice2 (lit ''t'' @ [LF] @ lit ''# a'' @ [LF] @ lit ''b'' @ [LF] @ lit ''u'') 2 7
       = lit ''# a'' @ [LF] @ lit ''b''
   \<and> headingTransform 2
        \<lparr>doc_text = lit ''t'' @ [LF] @ lit ''# a'' @ [LF] @ lit ''b'' @ [LF] @ lit ''u'',
         selectionStart = 2, selectionEnd = 7\<rparr>
      = \<lparr>new_value = lit ''t'' @ [LF] @ lit ''## a'' @ [LF] @ lit ''b'' @ [LF] @ lit ''u'',
         new_selectionStart = 5, new_selectionEnd = 8\<rparr>"
  using headingTransform_multiline
    [of 2 7 "lit ''t'' @ [LF] @ lit ''# a'' @ [LF] @ lit ''b'' @ [LF] @ lit ''u''"]
  by (simp add: headingTransform_def Let_def lit_def slice2_def slice1_def endsWith_def
      startsWith_def trim_def replaceHeadingMarker_def repeat_twice HASH_def LF_def
      isWhiteSpace_def)

end
